theory Spec2Isabelle
  imports
    Complex_Main
    "HOL-Library.Multiset"
    "HOL-Library.Char_ord"
    "HOL-Library.List_Lexorder"
begin

section \<open>Timeglass Foods: recipe scanning and direct ingredient map\<close>

text \<open>
  A shallow embedding of \<^verbatim>\<open>tfoods_dump_recipe_json.py\<close>. Parsed JSON is a datatype, a
  Python \<^verbatim>\<open>str\<close> is a \<^typ>\<open>string\<close> (characters are the code points below 256), a
  \<^verbatim>\<open>dict\<close> that is only looked up is a map, and a JSON object, whose \<^verbatim>\<open>values()\<close> the
  code iterates in order, is an association list. Every operation of the source that
  can raise on some value (a subscript, a method of the wrong type) returns a sum with
  the error on the left.
\<close>

subsection \<open>JSON values as \<^verbatim>\<open>json.loads\<close> returns them\<close>

datatype pyfloat = FNum real | FInf bool | FNaN

datatype json =
    JNull
  | JBool bool
  | JInt int
  | JFloat pyfloat
  | JStr string
  | JList "json list"
  | JObj "(string \<times> json) list"

datatype error =
    KeyError string
  | AttributeError string
  | TypeError string
  | ValueError string
  | OSError string
  | NotModelled string

text \<open>\<^verbatim>\<open>k in d\<close>, \<^verbatim>\<open>d.get(k)\<close> (None when the key is absent) and \<^verbatim>\<open>d[k]\<close> on a dict.\<close>

definition has_key :: "(string \<times> json) list \<Rightarrow> string \<Rightarrow> bool" where
  "has_key kvs k = (map_of kvs k \<noteq> None)"

definition get :: "(string \<times> json) list \<Rightarrow> string \<Rightarrow> json" where
  "get kvs k = (case map_of kvs k of None \<Rightarrow> JNull | Some v \<Rightarrow> v)"

definition getitem :: "(string \<times> json) list \<Rightarrow> string \<Rightarrow> error + json" where
  "getitem kvs k = (case map_of kvs k of None \<Rightarrow> Inl (KeyError k) | Some v \<Rightarrow> Inr v)"

text \<open>Python truthiness of a JSON value (the left operand of \<^verbatim>\<open>or\<close>).\<close>

fun truthy :: "json \<Rightarrow> bool" where
  "truthy JNull = False"
| "truthy (JBool b) = b"
| "truthy (JInt i) = (i \<noteq> 0)"
| "truthy (JFloat f) = (f \<noteq> FNum 0)"
| "truthy (JStr s) = (s \<noteq> [])"
| "truthy (JList xs) = (xs \<noteq> [])"
| "truthy (JObj kvs) = (kvs \<noteq> [])"

subsection \<open>String primitives\<close>

definition startswith :: "string \<Rightarrow> string \<Rightarrow> bool" where
  "startswith s p = (take (length p) s = p)"

text \<open>The characters \<^verbatim>\<open>str.strip()\<close> removes: the code points below 256 that
  \<^verbatim>\<open>str.isspace\<close> accepts.\<close>

definition isspace :: "char \<Rightarrow> bool" where
  "isspace c = (let n = (of_char c :: nat) in
     (9 \<le> n \<and> n \<le> 13) \<or> (28 \<le> n \<and> n \<le> 32) \<or> n = 133 \<or> n = 160)"

definition lstrip :: "string \<Rightarrow> string" where
  "lstrip s = dropWhile isspace s"

definition rstrip :: "string \<Rightarrow> string" where
  "rstrip s = rev (dropWhile isspace (rev s))"

definition strip :: "string \<Rightarrow> string" where
  "strip s = rstrip (lstrip s)"

subsection \<open>Token canonicalizer\<close>

definition canonicalize_token :: "string \<Rightarrow> string" where
  "canonicalize_token token =
     (let t = strip token in
      if startswith t ''item:'' \<or> startswith t ''tag:'' \<or> startswith t ''fluid:'' then t
      else if CHR '':'' \<in> set t \<and> \<not> startswith t ''#'' then ''item:'' @ t
      else if startswith t ''#'' \<and> CHR '':'' \<in> set (drop 1 t) then ''tag:'' @ drop 1 t
      else t)"

text \<open>The guard in front of it: a value that is not a \<^verbatim>\<open>str\<close> is returned as it is.\<close>

fun canonicalize_token_dyn :: "json \<Rightarrow> json" where
  "canonicalize_token_dyn (JStr token) = JStr (canonicalize_token token)"
| "canonicalize_token_dyn v = v"

subsection \<open>Output extractor\<close>

fun is_item_id :: "json \<Rightarrow> bool" where
  "is_item_id (JStr s) = (CHR '':'' \<in> set s \<and> \<not> startswith s ''#'')"
| "is_item_id v = False"

text \<open>
  A Python set that the code iterates (\<^verbatim>\<open>outputs\<close>) is a list enumerating its elements;
  only \<^term>\<open>set\<close> of that list means anything. The statement
  \<^verbatim>\<open>if is_item_id(v): out.add(v)\<close>:
\<close>

definition add_if_item_id :: "string list \<Rightarrow> json \<Rightarrow> string list" where
  "add_if_item_id out v =
     (case v of JStr s \<Rightarrow> (if is_item_id v then out @ [s] else out) | _ \<Rightarrow> out)"

text \<open>\<^verbatim>\<open>isinstance(x, dict) and ("item" in x or "id" in x or "name" in x)\<close>\<close>

fun has_result_field :: "json \<Rightarrow> bool" where
  "has_result_field (JObj kvs) = (has_key kvs ''item'' \<or> has_key kvs ''id'' \<or> has_key kvs ''name'')"
| "has_result_field v = False"

fun from_result_obj :: "json \<Rightarrow> string list"
  and from_result_list :: "json list \<Rightarrow> string list"
  and from_result_values :: "(string \<times> json) list \<Rightarrow> string list"
where
  "from_result_obj JNull = []"
| "from_result_obj (JStr s) = (if is_item_id (JStr s) then [s] else [])"
| "from_result_obj (JList xs) = from_result_list xs"
| "from_result_obj (JObj obj) =
     (let out = add_if_item_id [] (get obj ''item'');
          out = add_if_item_id out (get obj ''id'');
          out = add_if_item_id out (get obj ''name'')
      in out @ from_result_values obj)"
| "from_result_obj v = []"
| "from_result_list [] = []"
| "from_result_list (el # els) = from_result_obj el @ from_result_list els"
| "from_result_values [] = []"
| "from_result_values ((k, v) # rest) =
     (case v of
        JObj d \<Rightarrow> (if has_result_field v then from_result_obj v else [])
      | JList xs \<Rightarrow> (if list_ex has_result_field xs then from_result_obj v else [])
      | _ \<Rightarrow> [])
     @ from_result_values rest"

definition extract_outputs :: "json \<Rightarrow> string list" where
  "extract_outputs recipe =
     (case recipe of
        JObj r \<Rightarrow>
          (let outputs = (if has_key r ''result'' then from_result_obj (get r ''result'') else []);
               outputs = outputs
                 @ (if has_key r ''results'' then from_result_obj (get r ''results'') else [])
           in if outputs = [] then
                (let outputs = outputs
                       @ (if has_key r ''output'' then from_result_obj (get r ''output'') else []);
                     outputs = outputs
                       @ (if has_key r ''outputs'' then from_result_obj (get r ''outputs'') else [])
                 in outputs)
              else outputs)
      | _ \<Rightarrow> [])"

subsection \<open>Ingredient extractor\<close>

text \<open>The source's \<^verbatim>\<open>is_tag_id\<close> has the body of \<^verbatim>\<open>is_item_id\<close>.\<close>

definition is_tag_id :: "json \<Rightarrow> bool" where
  "is_tag_id v = is_item_id v"

definition tag_from_hash :: "string \<Rightarrow> string option" where
  "tag_from_hash s =
     (if startswith s ''#'' \<and> CHR '':'' \<in> set (drop 1 s) then Some (drop 1 s) else None)"

definition token_from_item_id :: "string \<Rightarrow> string" where
  "token_from_item_id item_id = ''item:'' @ item_id"

definition token_from_tag_id :: "string \<Rightarrow> string" where
  "token_from_tag_id tag_id = ''tag:'' @ tag_id"

definition token_from_fluid_id :: "string \<Rightarrow> string" where
  "token_from_fluid_id fluid_id = ''fluid:'' @ fluid_id"

text \<open>
  \<^verbatim>\<open>if is_item_id(v): out.append(tok(v))\<close>, for a value \<^verbatim>\<open>v\<close> that the guard itself
  has seen to be a \<^verbatim>\<open>str\<close>.
\<close>

definition append_if_id :: "(string \<Rightarrow> string) \<Rightarrow> string list \<Rightarrow> json \<Rightarrow> string list" where
  "append_if_id tok out v =
     (case v of JStr s \<Rightarrow> (if is_item_id v then out @ [tok s] else out) | _ \<Rightarrow> out)"

text \<open>
  \<^verbatim>\<open>out.append(tok(obj[k]))\<close>: the subscript raises KeyError on a missing key, and the
  f-string inside \<^verbatim>\<open>tok\<close> is modelled for a \<^verbatim>\<open>str\<close> only.
\<close>

definition append_subscript ::
  "(string \<Rightarrow> string) \<Rightarrow> string list \<Rightarrow> (string \<times> json) list \<Rightarrow> string \<Rightarrow> error + string list"
where
  "append_subscript tok out obj k =
     (case getitem obj k of
        Inl e \<Rightarrow> Inl e
      | Inr v \<Rightarrow>
          (case v of
             JStr s \<Rightarrow> Inr (out @ [tok s])
           | _ \<Rightarrow> Inl (NotModelled ''f-string of a value that is not a str'')))"

text \<open>The statements of \<^verbatim>\<open>collect_from_ingredient_obj\<close> on a dict, up to the
  \<^verbatim>\<open>"items"\<close> loop.\<close>

definition ingredient_fields :: "(string \<times> json) list \<Rightarrow> string list \<Rightarrow> error + string list" where
  "ingredient_fields obj out =
     (case (if has_key obj ''item'' \<and> is_item_id (get obj ''item'')
            then append_subscript token_from_item_id out obj ''item'' else Inr out) of
        Inl e \<Rightarrow> Inl e
      | Inr out1 \<Rightarrow>
          (case (if has_key obj ''tag'' \<and> is_tag_id (get obj ''tag'')
                 then append_subscript token_from_tag_id out1 obj ''tag'' else Inr out1) of
             Inl e \<Rightarrow> Inl e
           | Inr out2 \<Rightarrow>
               Inr (append_if_id token_from_item_id
                      (append_if_id token_from_item_id out2 (get obj ''id''))
                      (get obj ''name''))))"

function (sequential) collect_from_ingredient_obj :: "json \<Rightarrow> string list \<Rightarrow> error + string list"
  and collect_from_ingredient_list :: "json list \<Rightarrow> string list \<Rightarrow> error + string list"
where
  "collect_from_ingredient_obj JNull out = Inr out"
| "collect_from_ingredient_obj (JStr s) out =
     (case tag_from_hash s of
        Some t \<Rightarrow>
          (if t \<noteq> [] then Inr (out @ [token_from_tag_id t])
           else if is_item_id (JStr s) then Inr (out @ [token_from_item_id s])
           else Inr out)
      | None \<Rightarrow>
          (if is_item_id (JStr s) then Inr (out @ [token_from_item_id s]) else Inr out))"
| "collect_from_ingredient_obj (JList xs) out = collect_from_ingredient_list xs out"
| "collect_from_ingredient_obj (JObj obj) out =
     (case ingredient_fields obj out of
        Inl e \<Rightarrow> Inl e
      | Inr out1 \<Rightarrow>
          (if has_key obj ''items'' then
             (case getitem obj ''items'' of
                Inl e \<Rightarrow> Inl e
              | Inr items \<Rightarrow>
                  (case items of
                     JList els \<Rightarrow> collect_from_ingredient_list els out1
                   | _ \<Rightarrow> Inr out1))
           else Inr out1))"
| "collect_from_ingredient_obj v out = Inr out"
| "collect_from_ingredient_list [] out = Inr out"
| "collect_from_ingredient_list (el # els) out =
     (case collect_from_ingredient_obj el out of
        Inl e \<Rightarrow> Inl e
      | Inr out1 \<Rightarrow> collect_from_ingredient_list els out1)"
  by pat_completeness auto
termination
proof (relation "measure (\<lambda>x. case x of Inl (v, out) \<Rightarrow> size v
                                       | Inr (xs, out) \<Rightarrow> size_list size xs)")
  fix obj :: "(string \<times> json) list" and els :: "json list" and items :: json
    and out out1 :: "string list"
  assume "getitem obj ''items'' = Inr items" and "items = JList els"
  then have "map_of obj ''items'' = Some (JList els)"
    by (simp add: getitem_def split: option.splits)
  then have "(''items'', JList els) \<in> set obj"
    by (rule map_of_SomeD)
  then have "size (JList els) \<le> size_list (size_prod (\<lambda>_. 0) size) obj"
    by (induction obj) auto
  then show "(Inr (els, out1), Inl (JObj obj, out))
      \<in> measure (\<lambda>x. case x of Inl (v, out) \<Rightarrow> size v | Inr (xs, out) \<Rightarrow> size_list size xs)"
    by simp
qed auto

text \<open>\<^verbatim>\<open>for el in vs: if is_item_id(el): out.append(token_from_fluid_id(el))\<close>\<close>

fun fluids_loop :: "json list \<Rightarrow> string list \<Rightarrow> string list" where
  "fluids_loop [] out = out"
| "fluids_loop (el # els) out = fluids_loop els (append_if_id token_from_fluid_id out el)"

fun collect_from_fluid_obj :: "json \<Rightarrow> string list \<Rightarrow> string list"
  and collect_from_fluid_list :: "json list \<Rightarrow> string list \<Rightarrow> string list"
where
  "collect_from_fluid_obj JNull out = out"
| "collect_from_fluid_obj (JStr s) out =
     (if is_item_id (JStr s) then out @ [token_from_fluid_id s] else out)"
| "collect_from_fluid_obj (JList xs) out = collect_from_fluid_list xs out"
| "collect_from_fluid_obj (JObj obj) out =
     (let out = append_if_id token_from_fluid_id out (get obj ''fluid'');
          out = (case get obj ''fluids'' of JList vs \<Rightarrow> fluids_loop vs out | _ \<Rightarrow> out);
          ft = (if truthy (get obj ''fluidTag'') then get obj ''fluidTag'' else get obj ''tag'')
      in (case ft of JStr s \<Rightarrow> (if is_tag_id ft then out @ [token_from_tag_id s] else out)
          | _ \<Rightarrow> out))"
| "collect_from_fluid_obj v out = out"
| "collect_from_fluid_list [] out = out"
| "collect_from_fluid_list (el # els) out =
     collect_from_fluid_list els (collect_from_fluid_obj el out)"

text \<open>\<^verbatim>\<open>for x in v\<close> on a JSON value: a list gives its elements, a str its characters, a
  dict its keys, anything else raises TypeError. \<^verbatim>\<open>v.values()\<close> exists on a dict only.\<close>

definition py_iter :: "json \<Rightarrow> error + json list" where
  "py_iter v =
     (case v of
        JList xs \<Rightarrow> Inr xs
      | JStr s \<Rightarrow> Inr (map (\<lambda>c. JStr [c]) s)
      | JObj kvs \<Rightarrow> Inr (map (\<lambda>kv. JStr (fst kv)) kvs)
      | _ \<Rightarrow> Inl (TypeError ''object is not iterable''))"

definition py_values :: "json \<Rightarrow> error + json list" where
  "py_values v =
     (case v of
        JObj kvs \<Rightarrow> Inr (map snd kvs)
      | _ \<Rightarrow> Inl (AttributeError ''values''))"

fun is_dict :: "json \<Rightarrow> bool" where
  "is_dict (JObj kvs) = True"
| "is_dict v = False"

fun is_list :: "json \<Rightarrow> bool" where
  "is_list (JList xs) = True"
| "is_list v = False"

definition bind :: "error + 'a \<Rightarrow> ('a \<Rightarrow> error + 'b) \<Rightarrow> error + 'b" where
  "bind m f = (case m of Inl e \<Rightarrow> Inl e | Inr x \<Rightarrow> f x)"

text \<open>\<^verbatim>\<open>for ing in recipe["inputs"]\<close>: both collectors on every element.\<close>

fun inputs_loop :: "json list \<Rightarrow> string list \<Rightarrow> error + string list" where
  "inputs_loop [] tokens = Inr tokens"
| "inputs_loop (ing # rest) tokens =
     (case collect_from_ingredient_obj ing tokens of
        Inl e \<Rightarrow> Inl e
      | Inr tokens1 \<Rightarrow> inputs_loop rest (collect_from_fluid_obj ing tokens1))"

fun fluid_fields_loop :: "string list \<Rightarrow> (string \<times> json) list \<Rightarrow> string list \<Rightarrow> string list" where
  "fluid_fields_loop [] recipe tokens = tokens"
| "fluid_fields_loop (k # ks) recipe tokens =
     fluid_fields_loop ks recipe
       (if has_key recipe k then collect_from_fluid_obj (get recipe k) tokens else tokens)"

definition extract_direct_ingredient_tokens :: "json \<Rightarrow> error + string list" where
  "extract_direct_ingredient_tokens recipe =
     (case recipe of
        JObj r \<Rightarrow>
          bind (if has_key r ''pattern'' \<and> is_dict (get r ''key'')
                then bind (getitem r ''key'') (\<lambda>key.
                     bind (py_values key) (\<lambda>ings. collect_from_ingredient_list ings []))
                else Inr []) (\<lambda>tokens.
          bind (if is_list (get r ''ingredients'')
                then bind (getitem r ''ingredients'') (\<lambda>v.
                     bind (py_iter v) (\<lambda>ings. collect_from_ingredient_list ings tokens))
                else Inr tokens) (\<lambda>tokens.
          bind (if has_key r ''ingredient''
                then collect_from_ingredient_obj (get r ''ingredient'') tokens
                else Inr tokens) (\<lambda>tokens.
          bind (if has_key r ''input''
                then bind (collect_from_ingredient_obj (get r ''input'') tokens) (\<lambda>tokens.
                     Inr (collect_from_fluid_obj (get r ''input'') tokens))
                else Inr tokens) (\<lambda>tokens.
          bind (if is_list (get r ''inputs'')
                then bind (getitem r ''inputs'') (\<lambda>v.
                     bind (py_iter v) (\<lambda>ings. inputs_loop ings tokens))
                else Inr tokens) (\<lambda>tokens.
          Inr (fluid_fields_loop [''fluid'', ''fluids'', ''fluidIngredient'', ''fluid_ingredient'']
                 r tokens))))))
      | _ \<Rightarrow> Inr [])"

subsection \<open>Direct map builder\<close>

text \<open>
  The accumulator \<^verbatim>\<open>Dict[str, Set[str]]\<close> and the finalized \<^verbatim>\<open>Dict[str, List[str]]\<close>.
  Python compares dicts without regard to insertion order, and the artifact is written
  with sorted keys, so a dict that is only looked up and compared is a map.
\<close>

type_synonym direct_acc = "string \<rightharpoonup> string set"
type_synonym direct_map = "string \<rightharpoonup> string list"

fun merge_loop :: "direct_acc \<Rightarrow> string list \<Rightarrow> string list \<Rightarrow> error + direct_acc" where
  "merge_loop direct_map [] tokens = Inr direct_map"
| "merge_loop direct_map (out # outs) tokens =
     (let dm1 = (if direct_map out = None then direct_map(out \<mapsto> {}) else direct_map)
      in case dm1 out of
           None \<Rightarrow> Inl (KeyError out)
         | Some s \<Rightarrow> merge_loop (dm1(out \<mapsto> s \<union> set tokens)) outs tokens)"

definition merge_direct_map ::
  "direct_acc \<Rightarrow> string list \<Rightarrow> string list \<Rightarrow> error + direct_acc"
where
  "merge_direct_map direct_map outputs tokens =
     (if outputs = [] \<or> tokens = [] then Inr direct_map
      else merge_loop direct_map outputs tokens)"

definition finalize_direct_map :: "direct_acc \<Rightarrow> direct_map" where
  "finalize_direct_map direct_map =
     (\<lambda>out. case direct_map out of
               None \<Rightarrow> None
             | Some tokens \<Rightarrow> Some (sorted_list_of_set tokens))"

fun build_loop :: "direct_acc \<Rightarrow> (string \<times> string \<times> json) list \<Rightarrow> error + direct_acc" where
  "build_loop direct_map [] = Inr direct_map"
| "build_loop direct_map ((source_id, rel_path, recipe) # rest) =
     (let outputs = extract_outputs recipe
      in if outputs = [] then build_loop direct_map rest
         else
           (case extract_direct_ingredient_tokens recipe of
              Inl e \<Rightarrow> Inl e
            | Inr tokens \<Rightarrow>
                if tokens = [] then build_loop direct_map rest
                else
                  (case merge_direct_map direct_map outputs (map canonicalize_token tokens) of
                     Inl e \<Rightarrow> Inl e
                   | Inr dm \<Rightarrow> build_loop dm rest)))"

definition build_direct_map :: "(string \<times> string \<times> json) list \<Rightarrow> error + direct_map" where
  "build_direct_map recipes =
     (case build_loop Map.empty recipes of
        Inl e \<Rightarrow> Inl e
      | Inr direct_map \<Rightarrow> Inr (finalize_direct_map direct_map))"

subsection \<open>The outside world, and the edible masterlist\<close>

text \<open>
  A path is the list of its components. What the run reads from the file system is a
  parameter: which paths exist, what \<^verbatim>\<open>read_json\<close> returns for a path (the parsed value,
  or the error that \<^verbatim>\<open>open\<close> or \<^verbatim>\<open>json.load\<close> raises), and the recipe documents that the
  scan of the inputs yields.
\<close>

type_synonym path = "string list"

record world =
  path_exists :: "path \<Rightarrow> bool"
  file_json :: "path \<Rightarrow> error + json"
  recipe_stream :: "path list \<Rightarrow> (string \<times> string \<times> json) list"

definition read_json :: "world \<Rightarrow> path \<Rightarrow> error + json" where
  "read_json w p = file_json w p"

fun edible_loop :: "json list \<Rightarrow> string set \<Rightarrow> string set" where
  "edible_loop [] edible = edible"
| "edible_loop (it # items) edible =
     edible_loop items
       (case it of
          JStr s \<Rightarrow> (if CHR '':'' \<in> set s then insert s edible else edible)
        | _ \<Rightarrow> edible)"

definition load_edible_items :: "world \<Rightarrow> path \<Rightarrow> error + string set" where
  "load_edible_items w edibles_path =
     (case read_json w edibles_path of
        Inl e \<Rightarrow> Inl e
      | Inr obj \<Rightarrow>
          (case obj of
             JObj d \<Rightarrow>
               (case get d ''items'' of
                  JList items \<Rightarrow> Inr (edible_loop items {})
                | _ \<Rightarrow> Inl (ValueError ''Edibles JSON missing items list''))
           | _ \<Rightarrow> Inl (ValueError ''Edibles JSON must be an object'')))"

subsection \<open>Orchestration\<close>

text \<open>
  The run's persistence effects are a trace of events, in order. \<^verbatim>\<open>write_json\<close> creates the
  parent directory and then puts the document in place through a temporary file; that
  write-and-replace is one event. Prints are not part of the trace.
\<close>

record args =
  edibles :: path
  inputs :: "path list"
  registry :: path
  direct_map_out :: "path option"
  dry_run :: bool
  verbose :: bool








subsection \<open>Registry synchronization\<close>

text \<open>
  In the source both functions have the body \<^verbatim>\<open>pass\<close>: a call returns None and writes
  nothing, neither to the dict it is given nor to a file. The model returns the state
  after the call (the node dict, the node files under the registry) with the value
  returned.
\<close>

definition update_node_structural_fields ::
  "(string \<times> json) list \<Rightarrow> string \<Rightarrow> direct_map \<Rightarrow> string set \<Rightarrow> (string \<times> json) list \<times> json"
where
  "update_node_structural_fields node item_id direct_map edible = (node, JNull)"

definition sync_registry_nodes ::
  "(path \<rightharpoonup> json) \<Rightarrow> path \<Rightarrow> string set \<Rightarrow> direct_map \<Rightarrow> string set \<Rightarrow> (path \<rightharpoonup> json) \<times> json"
where
  "sync_registry_nodes files registry_dir expected_nodes direct_map edible = (files, JNull)"

section \<open>Properties of the token canonicalizer\<close>

subsection \<open>Stripping\<close>

lemma lstrip_id: "s = [] \<or> \<not> isspace (hd s) \<Longrightarrow> lstrip s = s"
  by (cases s) (auto simp: lstrip_def)

lemma rstrip_id: "s = [] \<or> \<not> isspace (last s) \<Longrightarrow> rstrip s = s"
  by (cases s rule: rev_cases) (auto simp: rstrip_def)

lemma lstrip_hd: "lstrip s \<noteq> [] \<Longrightarrow> \<not> isspace (hd (lstrip s))"
  unfolding lstrip_def by (simp add: hd_dropWhile)

lemma rstrip_last: "rstrip s \<noteq> [] \<Longrightarrow> \<not> isspace (last (rstrip s))"
  unfolding rstrip_def by (simp add: last_rev hd_dropWhile)

lemma rstrip_decomp: "s = rstrip s @ rev (takeWhile isspace (rev s))"
  by (simp add: rstrip_def flip: rev_append)

lemma rstrip_hd: "rstrip s \<noteq> [] \<Longrightarrow> hd (rstrip s) = hd s"
  by (metis hd_append2 rstrip_decomp)

lemma set_rstrip: "set (rstrip s) \<subseteq> set s"
  unfolding rstrip_def using set_dropWhileD by fastforce

lemma set_lstrip: "set (lstrip s) \<subseteq> set s"
  unfolding lstrip_def using set_dropWhileD by fastforce

lemma set_strip: "set (strip s) \<subseteq> set s"
  unfolding strip_def using set_rstrip set_lstrip by blast

lemma strip_edges:
  "strip s = [] \<or> (\<not> isspace (hd (strip s)) \<and> \<not> isspace (last (strip s)))"
proof (cases "strip s = []")
  case False
  then have ne: "rstrip (lstrip s) \<noteq> []" by (simp add: strip_def)
  then have "lstrip s \<noteq> []" by (auto simp: rstrip_def)
  then have "\<not> isspace (hd (lstrip s))" by (rule lstrip_hd)
  with ne have "\<not> isspace (hd (strip s))" by (simp add: strip_def rstrip_hd)
  moreover from ne have "\<not> isspace (last (strip s))" by (simp add: strip_def rstrip_last)
  ultimately show ?thesis by simp
qed simp

lemma strip_id: "t = [] \<or> (\<not> isspace (hd t) \<and> \<not> isspace (last t)) \<Longrightarrow> strip t = t"
  by (auto simp: strip_def lstrip_id rstrip_id)

lemma strip_strip: "strip (strip s) = strip s"
  using strip_edges [of s] by (rule strip_id)

lemma startswith_Cons: "startswith t (c # p) \<longleftrightarrow> (\<exists>r. t = c # r \<and> startswith r p)"
  by (cases t) (auto simp: startswith_def)

lemma startswith_append: "startswith (p @ r) p"
  by (simp add: startswith_def)

lemma not_space_chars:
  "\<not> isspace CHR ''i''" "\<not> isspace CHR ''t''" "\<not> isspace CHR ''f''" "\<not> isspace CHR ''#''"
  "\<not> isspace CHR '':''"
  by (simp_all add: isspace_def)

subsection \<open>The four branches\<close>

text \<open>On a string with no white space at either end the function is its \<^verbatim>\<open>if\<close> chain.\<close>

lemma canonicalize_token_stripped:
  assumes "t = [] \<or> (\<not> isspace (hd t) \<and> \<not> isspace (last t))"
  shows "canonicalize_token t =
      (if startswith t ''item:'' \<or> startswith t ''tag:'' \<or> startswith t ''fluid:'' then t
      else if CHR '':'' \<in> set t \<and> \<not> startswith t ''#'' then ''item:'' @ t
      else if startswith t ''#'' \<and> CHR '':'' \<in> set (drop 1 t) then ''tag:'' @ drop 1 t
      else t)"
  unfolding canonicalize_token_def Let_def strip_id [OF assms] ..

lemma canonicalize_token_strip: "canonicalize_token s = canonicalize_token (strip s)"
  by (simp add: canonicalize_token_def strip_strip)

lemma last_drop1: "drop 1 t \<noteq> [] \<Longrightarrow> last (drop 1 t) = last t"
  by (cases t) auto

text \<open>
  Claim C10. \<^verbatim>\<open>canonicalize_token\<close> is idempotent: canonicalizing its own result gives
  that result again, for every string.
\<close>

theorem canonicalize_token_idempotent:
  "canonicalize_token (canonicalize_token s) = canonicalize_token s"
proof -
  define t where "t = strip s"
  have edges: "t = [] \<or> (\<not> isspace (hd t) \<and> \<not> isspace (last t))"
    unfolding t_def by (rule strip_edges)
  have cs: "canonicalize_token s = canonicalize_token t"
    unfolding t_def by (rule canonicalize_token_strip)
  note ct = canonicalize_token_stripped [OF edges]
  consider (canon) "startswith t ''item:'' \<or> startswith t ''tag:'' \<or> startswith t ''fluid:''"
    | (item) "\<not> (startswith t ''item:'' \<or> startswith t ''tag:'' \<or> startswith t ''fluid:'')"
        "CHR '':'' \<in> set t \<and> \<not> startswith t ''#''"
    | (tag) "\<not> (startswith t ''item:'' \<or> startswith t ''tag:'' \<or> startswith t ''fluid:'')"
        "\<not> (CHR '':'' \<in> set t \<and> \<not> startswith t ''#'')"
        "startswith t ''#'' \<and> CHR '':'' \<in> set (drop 1 t)"
    | (other) "\<not> (startswith t ''item:'' \<or> startswith t ''tag:'' \<or> startswith t ''fluid:'')"
        "\<not> (CHR '':'' \<in> set t \<and> \<not> startswith t ''#'')"
        "\<not> (startswith t ''#'' \<and> CHR '':'' \<in> set (drop 1 t))"
    by blast
  then have "canonicalize_token (canonicalize_token t) = canonicalize_token t"
  proof cases
    case canon
    then have "canonicalize_token t = t" using ct by (simp del: One_nat_def)
    then show ?thesis by simp
  next
    case item
    then have r: "canonicalize_token t = ''item:'' @ t" using ct by (simp del: One_nat_def)
    from item have "t \<noteq> []" by auto
    with edges have "\<not> isspace (last (''item:'' @ t))" by simp
    moreover have "\<not> isspace (hd (''item:'' @ t))" by (simp add: not_space_chars)
    ultimately have "canonicalize_token (''item:'' @ t) = ''item:'' @ t"
      using canonicalize_token_stripped [of "''item:'' @ t"] startswith_append [of "''item:''" t]
      by simp
    with r show ?thesis by simp
  next
    case tag
    then have r: "canonicalize_token t = ''tag:'' @ drop 1 t" using ct by (simp del: One_nat_def)
    from tag have ne: "drop 1 t \<noteq> []" by auto
    then have "t \<noteq> []" by auto
    with edges ne have "\<not> isspace (last (''tag:'' @ drop 1 t))" by (simp add: last_drop1)
    moreover have "\<not> isspace (hd (''tag:'' @ drop 1 t))" by (simp add: not_space_chars)
    ultimately have "canonicalize_token (''tag:'' @ drop 1 t) = ''tag:'' @ drop 1 t"
      using canonicalize_token_stripped [of "''tag:'' @ drop 1 t"]
        startswith_append [of "''tag:''" "drop 1 t"]
      by simp
    with r show ?thesis by simp
  next
    case other
    then have "canonicalize_token t = t" using ct by (auto simp del: One_nat_def)
    then show ?thesis by simp
  qed
  with cs show ?thesis by simp
qed


lemma colon_free_not_canonical:
  "CHR '':'' \<notin> set t \<Longrightarrow>
     \<not> startswith t ''item:'' \<and> \<not> startswith t ''tag:'' \<and> \<not> startswith t ''fluid:''"
  by (auto simp: startswith_Cons)

lemma hash_colon: "startswith s ''#'' \<Longrightarrow> CHR '':'' \<in> set s \<Longrightarrow> CHR '':'' \<in> set (drop 1 s)"
  by (auto simp: startswith_Cons)

text \<open>
  Claim C4, as the code has it. A string that matches none of the recognized shapes (no
  prefix \<^verbatim>\<open>item:\<close>, \<^verbatim>\<open>tag:\<close> or \<^verbatim>\<open>fluid:\<close>, no colon without a leading \<^verbatim>\<open>#\<close>, no
  \<^verbatim>\<open>#\<close> followed by a colon) is returned with the white space at its two ends removed,
  so it is returned unchanged when it has none there; a value that is not a string is
  returned as it is. The function has no operation that can raise.
\<close>

theorem canonicalize_token_unrecognized:
  assumes "\<not> startswith s ''item:''" and "\<not> startswith s ''tag:''"
    and "\<not> startswith s ''fluid:''"
    and "\<not> (CHR '':'' \<in> set s \<and> \<not> startswith s ''#'')"
    and "\<not> (startswith s ''#'' \<and> CHR '':'' \<in> set (drop 1 s))"
  shows "canonicalize_token s = strip s
       \<and> (s = [] \<or> (\<not> isspace (hd s) \<and> \<not> isspace (last s)) \<longrightarrow> canonicalize_token s = s)
       \<and> ((\<forall>t. v \<noteq> JStr t) \<longrightarrow> canonicalize_token_dyn v = v)"
proof -
  from assms(4,5) have "CHR '':'' \<notin> set s" using hash_colon by blast
  then have nc: "CHR '':'' \<notin> set (strip s)" using set_strip by blast
  then have "CHR '':'' \<notin> set (drop 1 (strip s))" by (meson in_set_dropD)
  with nc colon_free_not_canonical [OF nc] have 1: "canonicalize_token s = strip s"
    by (simp add: canonicalize_token_def Let_def del: One_nat_def)
  have 2: "(\<forall>t. v \<noteq> JStr t) \<longrightarrow> canonicalize_token_dyn v = v"
    by (cases v) auto
  from 1 2 show ?thesis by (auto simp: strip_id)
qed

text \<open>The theorem at \<^verbatim>\<open>salt\<close> and at \<^verbatim>\<open>#salt\<close> between blanks.\<close>

theorem canonicalize_token_unrecognized_witness:
  "canonicalize_token ''salt'' = ''salt'' \<and> canonicalize_token_dyn (JInt 3) = JInt 3
   \<and> canonicalize_token ''  #salt  '' = ''#salt''"
  using canonicalize_token_unrecognized [of "''salt''" "JInt 3"]
    canonicalize_token_unrecognized [of "''  #salt  ''" "JInt 3"]
  by (simp add: startswith_def isspace_def strip_def lstrip_def rstrip_def)

text \<open>
  The claim as written says the input comes back unchanged. The string \<^verbatim>\<open>" salt"\<close>
  matches none of the shapes and comes back without its blank.
\<close>

theorem canonicalize_token_unrecognized_counterexample:
  "\<not> startswith '' salt'' ''item:'' \<and> \<not> startswith '' salt'' ''tag:''
   \<and> \<not> startswith '' salt'' ''fluid:''
   \<and> \<not> (CHR '':'' \<in> set '' salt'' \<and> \<not> startswith '' salt'' ''#'')
   \<and> \<not> (startswith '' salt'' ''#'' \<and> CHR '':'' \<in> set (drop 1 '' salt''))
   \<and> canonicalize_token '' salt'' = ''salt'' \<and> canonicalize_token '' salt'' \<noteq> '' salt''"
  by (simp add: canonicalize_token_def strip_def lstrip_def rstrip_def isspace_def startswith_def)

lemma startswith_rstrip:
  assumes "startswith s p" and "p \<noteq> []" and "\<not> isspace (last p)"
  shows "startswith (rstrip s) p"
proof -
  from assms(1) obtain r where s: "s = p @ r"
    by (metis append_take_drop_id startswith_def)
  have "rstrip (p @ r) = p @ rstrip r"
    using assms(2,3)
    by (induction r rule: rev_induct) (auto simp: rstrip_def dropWhile_append intro: rev_cases [of p])
  with s show ?thesis by (simp add: startswith_append)
qed


lemma canonicalize_token_prefixed:
  assumes "startswith s ''item:'' \<or> startswith s ''tag:'' \<or> startswith s ''fluid:''"
  shows "canonicalize_token s = rstrip s"
proof -
  from assms have "s \<noteq> [] \<and> \<not> isspace (hd s)"
    by (auto simp: startswith_Cons not_space_chars)
  then have "strip s = rstrip s" by (simp add: strip_def lstrip_id)
  moreover from assms have
    "startswith (rstrip s) ''item:'' \<or> startswith (rstrip s) ''tag:'' \<or> startswith (rstrip s) ''fluid:''"
    using startswith_rstrip [of s "''item:''"] startswith_rstrip [of s "''tag:''"]
      startswith_rstrip [of s "''fluid:''"]
    by (auto simp: not_space_chars)
  ultimately show ?thesis by (simp add: canonicalize_token_def)
qed

lemma canonicalize_token_hash:
  assumes "\<not> isspace (last (a @ '':'' @ b))"
  shows "canonicalize_token (''#'' @ a @ '':'' @ b) = ''tag:'' @ a @ '':'' @ b"
proof -
  let ?x = "''#'' @ a @ '':'' @ b"
  have "\<not> isspace (hd ?x) \<and> \<not> isspace (last ?x)"
    using assms by (simp add: not_space_chars)
  then have "canonicalize_token ?x =
      (if startswith ?x ''item:'' \<or> startswith ?x ''tag:'' \<or> startswith ?x ''fluid:'' then ?x
      else if CHR '':'' \<in> set ?x \<and> \<not> startswith ?x ''#'' then ''item:'' @ ?x
      else if startswith ?x ''#'' \<and> CHR '':'' \<in> set (drop 1 ?x) then ''tag:'' @ drop 1 ?x
      else ?x)"
    by (intro canonicalize_token_stripped) simp
  then show ?thesis by (simp add: startswith_def)
qed

lemma canonicalize_token_bare:
  assumes "\<not> isspace (hd (a @ '':'' @ b))" and "\<not> isspace (last (a @ '':'' @ b))"
    and "\<not> startswith (a @ '':'' @ b) ''#''"
    and "\<not> startswith (a @ '':'' @ b) ''item:''" and "\<not> startswith (a @ '':'' @ b) ''tag:''"
    and "\<not> startswith (a @ '':'' @ b) ''fluid:''"
  shows "canonicalize_token (a @ '':'' @ b) = ''item:'' @ a @ '':'' @ b"
proof -
  let ?x = "a @ '':'' @ b"
  have "canonicalize_token ?x =
      (if startswith ?x ''item:'' \<or> startswith ?x ''tag:'' \<or> startswith ?x ''fluid:'' then ?x
      else if CHR '':'' \<in> set ?x \<and> \<not> startswith ?x ''#'' then ''item:'' @ ?x
      else if startswith ?x ''#'' \<and> CHR '':'' \<in> set (drop 1 ?x) then ''tag:'' @ drop 1 ?x
      else ?x)"
    using assms(1,2) by (intro canonicalize_token_stripped) simp
  with assms(3-6) show ?thesis by simp
qed

text \<open>
  Claim C5, as the code has it. A string already prefixed with \<^verbatim>\<open>item:\<close>, \<^verbatim>\<open>tag:\<close> or
  \<^verbatim>\<open>fluid:\<close> is returned with trailing white space removed, hence unchanged when it does
  not end in white space. For a pair \<^verbatim>\<open>a:b\<close> that does not end in white space,
  \<^verbatim>\<open>#a:b\<close> becomes \<^verbatim>\<open>tag:a:b\<close>; and \<^verbatim>\<open>a:b\<close> becomes \<^verbatim>\<open>item:a:b\<close> when it also does not
  begin with white space, with \<^verbatim>\<open>#\<close>, or with one of the three prefixes.
\<close>

theorem canonicalize_token_round_trip:
  "(startswith s ''item:'' \<or> startswith s ''tag:'' \<or> startswith s ''fluid:''
      \<longrightarrow> canonicalize_token s = rstrip s \<and> (\<not> isspace (last s) \<longrightarrow> canonicalize_token s = s))
   \<and> (\<not> isspace (last (a @ '':'' @ b))
      \<longrightarrow> canonicalize_token (''#'' @ a @ '':'' @ b) = ''tag:'' @ a @ '':'' @ b)
   \<and> (\<not> isspace (hd (a @ '':'' @ b)) \<and> \<not> isspace (last (a @ '':'' @ b))
       \<and> \<not> startswith (a @ '':'' @ b) ''#'' \<and> \<not> startswith (a @ '':'' @ b) ''item:''
       \<and> \<not> startswith (a @ '':'' @ b) ''tag:'' \<and> \<not> startswith (a @ '':'' @ b) ''fluid:''
      \<longrightarrow> canonicalize_token (a @ '':'' @ b) = ''item:'' @ a @ '':'' @ b)"
  using canonicalize_token_prefixed [of s] canonicalize_token_hash [of a b]
    canonicalize_token_bare [of a b] rstrip_id [of s]
  by auto

text \<open>The three parts at the tokens of the spec's example.\<close>

theorem canonicalize_token_round_trip_witness:
  "canonicalize_token ''tag:modB:dough'' = ''tag:modB:dough''
   \<and> canonicalize_token ''#modB:dough'' = ''tag:modB:dough''
   \<and> canonicalize_token ''modB:dough'' = ''item:modB:dough''"
  using canonicalize_token_round_trip [of "''tag:modB:dough''" "''modB''" "''dough''"]
  by (simp add: startswith_def isspace_def rstrip_def)

text \<open>
  The claim as written fails on a prefixed string that ends in a blank, and on the pair
  whose namespace is \<^verbatim>\<open>tag\<close>.
\<close>

theorem canonicalize_token_round_trip_counterexample:
  "startswith ''item:a:b '' ''item:'' \<and> canonicalize_token ''item:a:b '' = ''item:a:b''
   \<and> canonicalize_token ''item:a:b '' \<noteq> ''item:a:b ''
   \<and> canonicalize_token (''tag'' @ '':'' @ ''b'') = ''tag:b''
   \<and> canonicalize_token (''tag'' @ '':'' @ ''b'') \<noteq> ''item:'' @ ''tag'' @ '':'' @ ''b''"
  by (simp add: canonicalize_token_def strip_def lstrip_def rstrip_def isspace_def startswith_def)

section \<open>Properties of the extractors\<close>

subsection \<open>No subscript of the ingredient extractor fails\<close>

lemma get_of_has_key: "has_key obj k \<Longrightarrow> getitem obj k = Inr (get obj k)"
  by (auto simp: has_key_def getitem_def get_def)

lemma has_key_of_get: "get obj k \<noteq> JNull \<Longrightarrow> has_key obj k"
  by (auto simp: has_key_def get_def split: option.splits)

lemma append_subscript_total:
  assumes "has_key obj k" and "is_item_id (get obj k)"
  shows "\<exists>out'. append_subscript tok out obj k = Inr out'"
proof -
  from assms(2) obtain s where "get obj k = JStr s"
    by (cases "get obj k") auto
  with assms(1) show ?thesis
    by (simp add: append_subscript_def get_of_has_key)
qed

lemma ingredient_fields_total: "\<exists>out'. ingredient_fields obj out = Inr out'"
proof -
  have "\<exists>out1. (if has_key obj ''item'' \<and> is_item_id (get obj ''item'')
      then append_subscript token_from_item_id out obj ''item'' else Inr out) = Inr out1"
    using append_subscript_total [of obj "''item''" token_from_item_id out] by auto
  then obtain out1 where 1:
    "(if has_key obj ''item'' \<and> is_item_id (get obj ''item'')
      then append_subscript token_from_item_id out obj ''item'' else Inr out) = Inr out1"
    by blast
  have "\<exists>out2. (if has_key obj ''tag'' \<and> is_tag_id (get obj ''tag'')
      then append_subscript token_from_tag_id out1 obj ''tag'' else Inr out1) = Inr out2"
    using append_subscript_total [of obj "''tag''" token_from_tag_id out1]
    by (auto simp: is_tag_id_def)
  then obtain out2 where 2:
    "(if has_key obj ''tag'' \<and> is_tag_id (get obj ''tag'')
      then append_subscript token_from_tag_id out1 obj ''tag'' else Inr out1) = Inr out2"
    by blast
  show ?thesis
    by (simp add: ingredient_fields_def 1 2)
qed

lemma collect_from_ingredient_total:
  "\<exists>out'. collect_from_ingredient_obj v out = Inr out'"
  "\<exists>out'. collect_from_ingredient_list vs out = Inr out'"
proof (induction v out and vs out
    rule: collect_from_ingredient_obj_collect_from_ingredient_list.induct)
  case (4 obj out)
  obtain out1 where f: "ingredient_fields obj out = Inr out1"
    using ingredient_fields_total by blast
  show ?case
  proof (cases "has_key obj ''items''")
    case True
    then have g: "getitem obj ''items'' = Inr (get obj ''items'')"
      by (rule get_of_has_key)
    show ?thesis
    proof (cases "get obj ''items''")
      case (JList els)
      with 4 [OF f True g JList] f True g show ?thesis by simp
    qed (use f True g in simp_all)
  next
    case False
    with f show ?thesis by simp
  qed
next
  case (7 el els out)
  from 7(1) obtain out1 where 1: "collect_from_ingredient_obj el out = Inr out1" by blast
  with 7(2) [OF 1] show ?case by simp
qed (auto split: option.splits)

lemma inputs_loop_total: "\<exists>tokens'. inputs_loop ings tokens = Inr tokens'"
proof (induction ings arbitrary: tokens)
  case (Cons ing rest)
  obtain t1 where "collect_from_ingredient_obj ing tokens = Inr t1"
    using collect_from_ingredient_total(1) by blast
  with Cons show ?case by simp
qed simp

lemma bind_Inr: "bind (Inr x) f = f x"
  by (simp add: bind_def)

lemma getitem_dict: "is_dict (get r k) \<Longrightarrow> getitem r k = Inr (get r k)"
  by (rule get_of_has_key, rule has_key_of_get) auto

lemma getitem_list: "is_list (get r k) \<Longrightarrow> getitem r k = Inr (get r k)"
  by (rule get_of_has_key, rule has_key_of_get) auto

lemma if_total: "(c \<Longrightarrow> \<exists>y. a = Inr y) \<Longrightarrow> \<exists>y. (if c then a else Inr x) = Inr y"
  by auto

lemma values_loop_total:
  "is_dict (get r k) \<Longrightarrow>
   \<exists>y. bind (getitem r k) (\<lambda>key.
          bind (py_values key) (\<lambda>ings. collect_from_ingredient_list ings tokens)) = Inr y"
  by (cases "get r k")
     (auto simp: getitem_dict bind_Inr py_values_def collect_from_ingredient_total(2))

lemma list_loop_total:
  "is_list (get r k) \<Longrightarrow>
   \<exists>y. bind (getitem r k) (\<lambda>v.
          bind (py_iter v) (\<lambda>ings. collect_from_ingredient_list ings tokens)) = Inr y"
  by (cases "get r k")
     (auto simp: getitem_list bind_Inr py_iter_def collect_from_ingredient_total(2))

lemma inputs_list_total:
  "is_list (get r k) \<Longrightarrow>
   \<exists>y. bind (getitem r k) (\<lambda>v. bind (py_iter v) (\<lambda>ings. inputs_loop ings tokens)) = Inr y"
  by (cases "get r k") (auto simp: getitem_list bind_Inr py_iter_def inputs_loop_total)

lemma extract_direct_ingredient_tokens_total:
  "\<exists>tokens. extract_direct_ingredient_tokens recipe = Inr tokens"
proof (cases recipe)
  case (JObj r)
  have "\<exists>t1. (if has_key r ''pattern'' \<and> is_dict (get r ''key'')
      then bind (getitem r ''key'') (\<lambda>key.
           bind (py_values key) (\<lambda>ings. collect_from_ingredient_list ings []))
      else Inr []) = Inr t1"
    by (rule if_total) (simp add: values_loop_total)
  then obtain t1 where 1:
    "(if has_key r ''pattern'' \<and> is_dict (get r ''key'')
      then bind (getitem r ''key'') (\<lambda>key.
           bind (py_values key) (\<lambda>ings. collect_from_ingredient_list ings []))
      else Inr []) = Inr t1"
    by blast
  have "\<exists>t2. (if is_list (get r ''ingredients'')
      then bind (getitem r ''ingredients'') (\<lambda>v.
           bind (py_iter v) (\<lambda>ings. collect_from_ingredient_list ings t1))
      else Inr t1) = Inr t2"
    by (rule if_total) (simp add: list_loop_total)
  then obtain t2 where 2:
    "(if is_list (get r ''ingredients'')
      then bind (getitem r ''ingredients'') (\<lambda>v.
           bind (py_iter v) (\<lambda>ings. collect_from_ingredient_list ings t1))
      else Inr t1) = Inr t2"
    by blast
  have "\<exists>t3. (if has_key r ''ingredient''
      then collect_from_ingredient_obj (get r ''ingredient'') t2
      else Inr t2) = Inr t3"
    by (rule if_total) (simp add: collect_from_ingredient_total(1))
  then obtain t3 where 3:
    "(if has_key r ''ingredient''
      then collect_from_ingredient_obj (get r ''ingredient'') t2
      else Inr t2) = Inr t3"
    by blast
  have "\<exists>y. bind (collect_from_ingredient_obj (get r ''input'') t3) (\<lambda>tokens.
           Inr (collect_from_fluid_obj (get r ''input'') tokens)) = Inr y"
    using collect_from_ingredient_total(1) [of "get r ''input''" t3] by (auto simp: bind_Inr)
  then have "\<exists>t4. (if has_key r ''input''
      then bind (collect_from_ingredient_obj (get r ''input'') t3) (\<lambda>tokens.
           Inr (collect_from_fluid_obj (get r ''input'') tokens))
      else Inr t3) = Inr t4"
    by (intro if_total)
  then obtain t4 where 4:
    "(if has_key r ''input''
      then bind (collect_from_ingredient_obj (get r ''input'') t3) (\<lambda>tokens.
           Inr (collect_from_fluid_obj (get r ''input'') tokens))
      else Inr t3) = Inr t4"
    by blast
  have "\<exists>t5. (if is_list (get r ''inputs'')
      then bind (getitem r ''inputs'') (\<lambda>v.
           bind (py_iter v) (\<lambda>ings. inputs_loop ings t4))
      else Inr t4) = Inr t5"
    by (rule if_total) (simp add: inputs_list_total)
  then obtain t5 where 5:
    "(if is_list (get r ''inputs'')
      then bind (getitem r ''inputs'') (\<lambda>v.
           bind (py_iter v) (\<lambda>ings. inputs_loop ings t4))
      else Inr t4) = Inr t5"
    by blast
  show ?thesis
    by (simp add: extract_direct_ingredient_tokens_def JObj 1 2 3 4 5 bind_Inr)
qed (simp_all add: extract_direct_ingredient_tokens_def)


subsection \<open>Shapes that contribute nothing\<close>









section \<open>Properties of the direct map builder\<close>

subsection \<open>What one merge does to each key\<close>

lemma merge_loop_eq:
  "merge_loop dm outs tokens =
     Inr (\<lambda>k. if k \<in> set outs
               then Some ((case dm k of None \<Rightarrow> {} | Some s \<Rightarrow> s) \<union> set tokens)
               else dm k)"
proof (induction outs arbitrary: dm)
  case Nil
  show ?case by simp
next
  case (Cons out outs)
  show ?case
    by (cases "dm out") (auto simp: Cons.IH Let_def intro!: ext)
qed

lemma merge_direct_map_eq:
  "merge_direct_map dm outs tokens =
     Inr (if outs = [] \<or> tokens = [] then dm
          else (\<lambda>k. if k \<in> set outs
                     then Some ((case dm k of None \<Rightarrow> {} | Some s \<Rightarrow> s) \<union> set tokens)
                     else dm k))"
  by (simp add: merge_direct_map_def merge_loop_eq)


text \<open>
  The list that stands for the set \<^verbatim>\<open>outputs\<close> matters through its elements only: the
  order in which Python enumerates the set, and repetitions, change nothing.
\<close>

lemma merge_direct_map_set_cong:
  assumes "set outs = set outs'"
  shows "merge_direct_map dm outs tokens = merge_direct_map dm outs' tokens"
proof -
  from assms have "(outs = []) = (outs' = [])"
    by (metis set_empty)
  then show ?thesis
    unfolding merge_direct_map_eq assms by simp
qed


subsection \<open>The accumulator after the whole stream\<close>

text \<open>
  A document contributes to key \<open>k\<close> when \<open>k\<close> is among its outputs and its token list
  is not empty. After the loop a key holds what it held before together with the
  canonical tokens of every contributing document.
\<close>

lemma closed_form_step:
  fixes P :: "'k \<Rightarrow> 'r \<Rightarrow> bool" and T :: "'r \<Rightarrow> 'v set" and dm :: "'k \<rightharpoonup> 'v set"
    and r :: 'r
  defines "dm1 \<equiv> (\<lambda>k. if P k r then Some ((case dm k of None \<Rightarrow> {} | Some s \<Rightarrow> s) \<union> T r)
                        else dm k)"
  shows "(\<lambda>k. if \<exists>x \<in> set rest. P k x
               then Some ((case dm1 k of None \<Rightarrow> {} | Some s \<Rightarrow> s)
                          \<union> (\<Union>x \<in> {x \<in> set rest. P k x}. T x))
               else dm1 k)
       = (\<lambda>k. if \<exists>x \<in> set (r # rest). P k x
               then Some ((case dm k of None \<Rightarrow> {} | Some s \<Rightarrow> s)
                          \<union> (\<Union>x \<in> {x \<in> set (r # rest). P k x}. T x))
               else dm k)"
proof (rule ext)
  fix k
  show "(if \<exists>x \<in> set rest. P k x
         then Some ((case dm1 k of None \<Rightarrow> {} | Some s \<Rightarrow> s)
                    \<union> (\<Union>x \<in> {x \<in> set rest. P k x}. T x))
         else dm1 k)
      = (if \<exists>x \<in> set (r # rest). P k x
         then Some ((case dm k of None \<Rightarrow> {} | Some s \<Rightarrow> s)
                    \<union> (\<Union>x \<in> {x \<in> set (r # rest). P k x}. T x))
         else dm k)"
  proof (cases "P k r")
    case True
    then have c: "{x \<in> set (r # rest). P k x} = insert r {x \<in> set rest. P k x}"
      by auto
    have e: "\<not> (\<exists>x \<in> set rest. P k x) \<Longrightarrow> {x \<in> set rest. P k x} = {}"
      by auto
    from True show ?thesis
      unfolding c dm1_def by (auto simp: e Un_assoc)
  next
    case False
    then have c: "{x \<in> set (r # rest). P k x} = {x \<in> set rest. P k x}"
      by auto
    from False show ?thesis
      unfolding c dm1_def by simp
  qed
qed

lemma build_loop_eq:
  "build_loop dm rs =
     Inr (\<lambda>k. if \<exists>r \<in> set rs. k \<in> set (extract_outputs (snd (snd r)))
                    \<and> projr (extract_direct_ingredient_tokens (snd (snd r))) \<noteq> []
               then Some ((case dm k of None \<Rightarrow> {} | Some s \<Rightarrow> s)
                    \<union> (\<Union>r \<in> {r \<in> set rs. k \<in> set (extract_outputs (snd (snd r)))
                              \<and> projr (extract_direct_ingredient_tokens (snd (snd r))) \<noteq> []}.
                         canonicalize_token ` set (projr (extract_direct_ingredient_tokens (snd (snd r))))))
               else dm k)"
proof (induction rs arbitrary: dm)
  case Nil
  show ?case by simp
next
  case (Cons r rest)
  obtain source_id rel_path recipe where r: "r = (source_id, rel_path, recipe)"
    by (cases r) auto
  obtain tokens where t: "extract_direct_ingredient_tokens recipe = Inr tokens"
    using extract_direct_ingredient_tokens_total by blast
  let ?P = "\<lambda>k (x :: string \<times> string \<times> json). k \<in> set (extract_outputs (snd (snd x)))
              \<and> projr (extract_direct_ingredient_tokens (snd (snd x))) \<noteq> []"
  let ?T = "\<lambda>x :: string \<times> string \<times> json.
              canonicalize_token ` set (projr (extract_direct_ingredient_tokens (snd (snd x))))"
  let ?dm1 = "\<lambda>k. if ?P k r then Some ((case dm k of None \<Rightarrow> {} | Some s \<Rightarrow> s) \<union> ?T r)
                  else dm k"
  have step: "build_loop dm (r # rest) = build_loop ?dm1 rest"
  proof (cases "extract_outputs recipe = [] \<or> tokens = []")
    case True
    then have "?dm1 = dm" by (auto simp: r t)
    moreover from True have "build_loop dm (r # rest) = build_loop dm rest"
      by (auto simp: r t Let_def)
    ultimately show ?thesis by simp
  next
    case False
    then have "?dm1 = (\<lambda>k. if k \<in> set (extract_outputs recipe)
                     then Some ((case dm k of None \<Rightarrow> {} | Some s \<Rightarrow> s)
                                \<union> set (map canonicalize_token tokens))
                     else dm k)"
      by (auto simp: r t)
    moreover from False have "build_loop dm (r # rest) =
      build_loop (\<lambda>k. if k \<in> set (extract_outputs recipe)
                     then Some ((case dm k of None \<Rightarrow> {} | Some s \<Rightarrow> s)
                                \<union> set (map canonicalize_token tokens))
                     else dm k) rest"
      by (simp add: r t merge_direct_map_eq Let_def)
    ultimately show ?thesis by simp
  qed
  show ?case
    unfolding step Cons.IH [of ?dm1]
    using closed_form_step [of rest ?P r dm ?T]
    by simp
qed


lemma build_direct_map_eq:
  "build_direct_map rs =
     Inr (\<lambda>k. if \<exists>r \<in> set rs. k \<in> set (extract_outputs (snd (snd r)))
                    \<and> projr (extract_direct_ingredient_tokens (snd (snd r))) \<noteq> []
               then Some (sorted_list_of_set
                     (\<Union>r \<in> {r \<in> set rs. k \<in> set (extract_outputs (snd (snd r)))
                              \<and> projr (extract_direct_ingredient_tokens (snd (snd r))) \<noteq> []}.
                         canonicalize_token ` set (projr (extract_direct_ingredient_tokens (snd (snd r))))))
               else None)"
  by (auto simp: build_direct_map_def build_loop_eq [of Map.empty rs] finalize_direct_map_def
      intro!: ext)

lemma build_direct_map_set_cong:
  assumes "set rs = set rs'"
  shows "build_direct_map rs = build_direct_map rs'"
  unfolding build_direct_map_eq assms ..

subsection \<open>Order independence\<close>

text \<open>
  Claim C2. For a fixed multiset of recipe documents, \<^verbatim>\<open>build_direct_map\<close> returns the
  same finalized map for every ordering of the stream.
\<close>

theorem build_direct_map_order_independent:
  "mset rs = mset rs' \<Longrightarrow> build_direct_map rs = build_direct_map rs'"
  by (rule build_direct_map_set_cong) (rule mset_eq_setD)

text \<open>Two documents for the same output, streamed in both orders.\<close>

theorem build_direct_map_order_independent_witness:
  "build_direct_map
     [(''a.jar'', ''data/m/recipes/x.json'',
         JObj [(''result'', JStr ''modA:bread''), (''ingredients'', JList [JStr ''modA:wheat''])]),
      (''b.jar'', ''data/m/recipes/y.json'',
         JObj [(''result'', JStr ''modA:bread''), (''ingredient'', JStr ''#modB:dough'')])]
   = build_direct_map
     [(''b.jar'', ''data/m/recipes/y.json'',
         JObj [(''result'', JStr ''modA:bread''), (''ingredient'', JStr ''#modB:dough'')]),
      (''a.jar'', ''data/m/recipes/x.json'',
         JObj [(''result'', JStr ''modA:bread''), (''ingredients'', JList [JStr ''modA:wheat''])])]"
  by (rule build_direct_map_order_independent) simp


subsection \<open>Cross-product merge\<close>

lemma finite_contributions:
  "finite (\<Union>r \<in> {r \<in> set rs. k \<in> set (extract_outputs (snd (snd r)))
                \<and> projr (extract_direct_ingredient_tokens (snd (snd r))) \<noteq> []}.
             canonicalize_token ` set (projr (extract_direct_ingredient_tokens (snd (snd r)))))"
  by simp

lemma build_direct_map_contains:
  assumes "(source_id, rel_path, recipe) \<in> set rs"
    and "extract_outputs recipe \<noteq> []"
    and "extract_direct_ingredient_tokens recipe = Inr tokens" and "tokens \<noteq> []"
  shows "\<exists>m. build_direct_map rs = Inr m
           \<and> (\<forall>out \<in> set (extract_outputs recipe).
                \<exists>l. m out = Some l \<and> canonicalize_token ` set tokens \<subseteq> set l)"
proof -
  let ?r = "(source_id, rel_path, recipe)"
  let ?U = "\<lambda>k. \<Union>r \<in> {r \<in> set rs. k \<in> set (extract_outputs (snd (snd r)))
                \<and> projr (extract_direct_ingredient_tokens (snd (snd r))) \<noteq> []}.
             canonicalize_token ` set (projr (extract_direct_ingredient_tokens (snd (snd r))))"
  {
    fix out
    assume out: "out \<in> set (extract_outputs recipe)"
    with assms have c: "?r \<in> {r \<in> set rs. out \<in> set (extract_outputs (snd (snd r)))
                \<and> projr (extract_direct_ingredient_tokens (snd (snd r))) \<noteq> []}"
      by simp
    then have ex: "\<exists>r \<in> set rs. out \<in> set (extract_outputs (snd (snd r)))
                \<and> projr (extract_direct_ingredient_tokens (snd (snd r))) \<noteq> []"
      by blast
    from c have "canonicalize_token ` set (projr (extract_direct_ingredient_tokens (snd (snd ?r))))
        \<subseteq> ?U out"
      by (rule UN_upper)
    then have "canonicalize_token ` set tokens \<subseteq> ?U out"
      by (simp add: assms(3))
    then have "canonicalize_token ` set tokens \<subseteq> set (sorted_list_of_set (?U out))"
      using finite_contributions [where k = out and rs = rs] by simp
    with ex have "\<exists>l. (if \<exists>r \<in> set rs. out \<in> set (extract_outputs (snd (snd r)))
                    \<and> projr (extract_direct_ingredient_tokens (snd (snd r))) \<noteq> []
               then Some (sorted_list_of_set (?U out)) else None) = Some l
            \<and> canonicalize_token ` set tokens \<subseteq> set l"
      by simp
  }
  then show ?thesis
    unfolding build_direct_map_eq by blast
qed

text \<open>
  Claim C6. Merging a pair whose outputs and tokens are both non-empty succeeds and gives
  every output of the pair the whole token set, on top of what the output already had,
  and leaves the other keys alone. So a document with outputs and tokens has all its
  canonicalized tokens in the finalized entry of each of its outputs.
\<close>

theorem merge_direct_map_cross_product:
  "(outputs \<noteq> [] \<and> tokens \<noteq> [] \<longrightarrow>
      (\<exists>dm'. merge_direct_map dm outputs tokens = Inr dm'
         \<and> (\<forall>out \<in> set outputs.
              dm' out = Some ((case dm out of None \<Rightarrow> {} | Some s \<Rightarrow> s) \<union> set tokens))
         \<and> (\<forall>k. k \<notin> set outputs \<longrightarrow> dm' k = dm k)))
   \<and> ((source_id, rel_path, recipe) \<in> set rs \<and> extract_outputs recipe \<noteq> []
        \<and> extract_direct_ingredient_tokens recipe = Inr raw \<and> raw \<noteq> [] \<longrightarrow>
      (\<exists>m. build_direct_map rs = Inr m
         \<and> (\<forall>out \<in> set (extract_outputs recipe).
              \<exists>l. m out = Some l \<and> canonicalize_token ` set raw \<subseteq> set l)))"
  using build_direct_map_contains [of source_id rel_path recipe rs raw]
  by (simp add: merge_direct_map_eq)

text \<open>
  The spec's example: outputs \<open>{a, b}\<close> and two tokens, merged into the empty map and
  streamed as one document.
\<close>

theorem merge_direct_map_cross_product_witness:
  "(\<exists>dm'. merge_direct_map Map.empty [''m:a'', ''m:b''] [''item:m:x'', ''tag:m:y''] = Inr dm'
      \<and> dm' ''m:a'' = Some {''item:m:x'', ''tag:m:y''}
      \<and> dm' ''m:b'' = Some {''item:m:x'', ''tag:m:y''}
      \<and> dm' ''m:c'' = None)
   \<and> (\<exists>m. build_direct_map
            [(''a.jar'', ''data/m/recipes/x.json'',
              JObj [(''results'', JList [JObj [(''item'', JStr ''m:a'')], JObj [(''item'', JStr ''m:b'')]]),
                    (''ingredients'', JList [JStr ''m:x'', JStr ''#m:y''])])] = Inr m
      \<and> (\<exists>l. m ''m:a'' = Some l \<and> {''item:m:x'', ''tag:m:y''} \<subseteq> set l)
      \<and> (\<exists>l. m ''m:b'' = Some l \<and> {''item:m:x'', ''tag:m:y''} \<subseteq> set l))"
proof -
  let ?doc = "JObj [(''results'', JList [JObj [(''item'', JStr ''m:a'')], JObj [(''item'', JStr ''m:b'')]]),
                    (''ingredients'', JList [JStr ''m:x'', JStr ''#m:y''])]"
  have outs: "extract_outputs ?doc = [''m:a'', ''m:b'']"
    by code_simp
  have toks: "extract_direct_ingredient_tokens ?doc = Inr [''item:m:x'', ''tag:m:y'']"
    by code_simp
  have canon: "canonicalize_token ''item:m:x'' = ''item:m:x''"
    "canonicalize_token ''tag:m:y'' = ''tag:m:y''"
    by code_simp+
  show ?thesis
    using merge_direct_map_cross_product [of "[''m:a'', ''m:b'']" "[''item:m:x'', ''tag:m:y'']"
        Map.empty "''a.jar''" "''data/m/recipes/x.json''" ?doc
        "[(''a.jar'', ''data/m/recipes/x.json'', ?doc)]" "[''item:m:x'', ''tag:m:y'']"]
    by (simp add: outs toks canon) fastforce
qed

subsection \<open>Empty pairs\<close>

lemma build_direct_map_skip:
  assumes "extract_outputs recipe = [] \<or> extract_direct_ingredient_tokens recipe = Inr []"
  shows "build_direct_map (rs1 @ (source_id, rel_path, recipe) # rs2) = build_direct_map (rs1 @ rs2)"
proof -
  let ?r = "(source_id, rel_path, recipe)"
  have np: "\<not> (k \<in> set (extract_outputs (snd (snd ?r)))
          \<and> projr (extract_direct_ingredient_tokens (snd (snd ?r))) \<noteq> [])" for k
    using assms by auto
  have 1: "{r \<in> set (rs1 @ ?r # rs2). k \<in> set (extract_outputs (snd (snd r)))
              \<and> projr (extract_direct_ingredient_tokens (snd (snd r))) \<noteq> []}
         = {r \<in> set (rs1 @ rs2). k \<in> set (extract_outputs (snd (snd r)))
              \<and> projr (extract_direct_ingredient_tokens (snd (snd r))) \<noteq> []}" for k
    using np [of k] by auto
  have 2: "(\<exists>r \<in> set (rs1 @ ?r # rs2). k \<in> set (extract_outputs (snd (snd r)))
              \<and> projr (extract_direct_ingredient_tokens (snd (snd r))) \<noteq> [])
         = (\<exists>r \<in> set (rs1 @ rs2). k \<in> set (extract_outputs (snd (snd r)))
              \<and> projr (extract_direct_ingredient_tokens (snd (snd r))) \<noteq> [])" for k
    using np [of k] by auto
  show ?thesis
    unfolding build_direct_map_eq 1 2 ..
qed

lemma build_direct_map_nonempty:
  assumes "build_direct_map rs = Inr m"
  shows "m k \<noteq> Some []"
proof
  assume e: "m k = Some []"
  let ?C = "{r \<in> set rs. k \<in> set (extract_outputs (snd (snd r)))
                \<and> projr (extract_direct_ingredient_tokens (snd (snd r))) \<noteq> []}"
  let ?U = "\<Union>r \<in> ?C.
             canonicalize_token ` set (projr (extract_direct_ingredient_tokens (snd (snd r))))"
  from assms have "m = (\<lambda>k. if \<exists>r \<in> set rs. k \<in> set (extract_outputs (snd (snd r)))
                    \<and> projr (extract_direct_ingredient_tokens (snd (snd r))) \<noteq> []
               then Some (sorted_list_of_set
                     (\<Union>r \<in> {r \<in> set rs. k \<in> set (extract_outputs (snd (snd r)))
                              \<and> projr (extract_direct_ingredient_tokens (snd (snd r))) \<noteq> []}.
                         canonicalize_token ` set (projr (extract_direct_ingredient_tokens (snd (snd r))))))
               else None)"
    unfolding build_direct_map_eq by simp
  then have m: "m k = (if \<exists>r \<in> set rs. k \<in> set (extract_outputs (snd (snd r)))
                    \<and> projr (extract_direct_ingredient_tokens (snd (snd r))) \<noteq> []
               then Some (sorted_list_of_set ?U) else None)"
    by simp
  with e obtain r where r: "r \<in> ?C" and "sorted_list_of_set ?U = []"
    by (auto split: if_splits)
  then have u: "?U = {}"
    using finite_contributions [where k = k and rs = rs] by (simp del: UN_simps)
  from r have "canonicalize_token ` set (projr (extract_direct_ingredient_tokens (snd (snd r))))
      \<subseteq> ?U"
    by (rule UN_upper)
  then have "set (projr (extract_direct_ingredient_tokens (snd (snd r)))) = {}"
    unfolding u by simp
  with r show False by simp
qed

text \<open>
  Claim C7. A document whose extracted output set is empty, or whose extracted token
  list is empty, can be taken out of the stream without changing the finalized map, and
  no key of a finalized map has the empty sequence.
\<close>

theorem empty_pair_contributes_nothing:
  "(extract_outputs recipe = [] \<or> extract_direct_ingredient_tokens recipe = Inr [] \<longrightarrow>
      build_direct_map (rs1 @ (source_id, rel_path, recipe) # rs2) = build_direct_map (rs1 @ rs2))
   \<and> (build_direct_map rs = Inr m \<longrightarrow> m k \<noteq> Some [])"
  using build_direct_map_skip [of recipe rs1 source_id rel_path rs2]
    build_direct_map_nonempty [of rs m k]
  by blast



text \<open>
  A document with an output and no ingredient, between two documents that contribute; and
  the one entry of the finalized map.
\<close>

theorem empty_pair_contributes_nothing_witness:
  "build_direct_map
     [(''a.jar'', ''x.json'', JObj [(''result'', JStr ''m:a''), (''ingredient'', JStr ''m:x'')]),
      (''a.jar'', ''y.json'', JObj [(''result'', JStr ''m:b'')]),
      (''a.jar'', ''z.json'', JObj [(''result'', JStr ''m:a''), (''ingredient'', JStr ''#m:y'')])]
   = build_direct_map
     [(''a.jar'', ''x.json'', JObj [(''result'', JStr ''m:a''), (''ingredient'', JStr ''m:x'')]),
      (''a.jar'', ''z.json'', JObj [(''result'', JStr ''m:a''), (''ingredient'', JStr ''#m:y'')])]
   \<and> (\<exists>m. build_direct_map
            [(''a.jar'', ''x.json'', JObj [(''result'', JStr ''m:a''), (''ingredient'', JStr ''m:x'')])]
          = Inr m \<and> m ''m:a'' \<noteq> Some [] \<and> m ''m:b'' \<noteq> Some [])"
proof -
  let ?x = "(''a.jar'', ''x.json'', JObj [(''result'', JStr ''m:a''), (''ingredient'', JStr ''m:x'')])"
  let ?z = "(''a.jar'', ''z.json'', JObj [(''result'', JStr ''m:a''), (''ingredient'', JStr ''#m:y'')])"
  have toks: "extract_direct_ingredient_tokens (JObj [(''result'', JStr ''m:b'')]) = Inr []"
    by code_simp
  obtain m where m: "build_direct_map [?x] = Inr m"
    unfolding build_direct_map_eq by blast
  from toks m show ?thesis
    using empty_pair_contributes_nothing [of "JObj [(''result'', JStr ''m:b'')]" "[?x]"
        "''a.jar''" "''y.json''" "[?z]" "[?x]" m "''m:a''"]
      empty_pair_contributes_nothing [of "JObj [(''result'', JStr ''m:b'')]" "[?x]"
        "''a.jar''" "''y.json''" "[?z]" "[?x]" m "''m:b''"]
    by simp
qed

section \<open>Properties of the edible masterlist loader\<close>

lemma edible_loop_eq:
  "edible_loop items edible = edible \<union> {s. JStr s \<in> set items \<and> CHR '':'' \<in> set s}"
  by (induction items arbitrary: edible) (auto split: json.splits)

lemma load_edible_items_read_error:
  "read_json w p = Inl e \<Longrightarrow> load_edible_items w p = Inl e"
  by (simp add: load_edible_items_def)

text \<open>
  Claim C9. Given the parsed masterlist document, \<^verbatim>\<open>load_edible_items\<close> raises exactly
  when the document is not an object or its \<^verbatim>\<open>items\<close> is not a list (absent counts: \<^verbatim>\<open>get\<close>
  gives None). Otherwise it returns the set of the entries that are strings containing a
  colon; every other entry is passed over.
\<close>

theorem load_edible_items_contract:
  "read_json w p = Inr doc \<Longrightarrow>
     ((\<exists>e. load_edible_items w p = Inl e)
        \<longleftrightarrow> (case doc of JObj d \<Rightarrow> \<not> is_list (get d ''items'') | _ \<Rightarrow> True))
     \<and> (\<forall>d items. doc = JObj d \<and> get d ''items'' = JList items \<longrightarrow>
           load_edible_items w p = Inr {s. JStr s \<in> set items \<and> CHR '':'' \<in> set s})"
  by (cases doc; cases "case doc of JObj d \<Rightarrow> get d ''items'' | _ \<Rightarrow> JNull")
     (auto simp: load_edible_items_def edible_loop_eq)

text \<open>A masterlist with a number and a string without colon among its items, and a
  masterlist that is a list.\<close>

theorem load_edible_items_contract_witness:
  "load_edible_items
     \<lparr>path_exists = (\<lambda>p. True),
      file_json = (\<lambda>p. Inr (JObj [(''items'', JList [JStr ''modA:bread'', JInt 3, JStr ''bread'', JNull])])),
      recipe_stream = (\<lambda>ps. [])\<rparr> [''edibles.json'']
     = Inr {''modA:bread''}
   \<and> (\<exists>e. load_edible_items
     \<lparr>path_exists = (\<lambda>p. True), file_json = (\<lambda>p. Inr (JList [JStr ''modA:bread''])),
      recipe_stream = (\<lambda>ps. [])\<rparr> [''edibles.json''] = Inl e)"
  using load_edible_items_contract [of
      "\<lparr>path_exists = (\<lambda>p. True),
        file_json = (\<lambda>p. Inr (JObj [(''items'', JList [JStr ''modA:bread'', JInt 3, JStr ''bread'', JNull])])),
        recipe_stream = (\<lambda>ps. [])\<rparr>" "[''edibles.json'']"
      "JObj [(''items'', JList [JStr ''modA:bread'', JInt 3, JStr ''bread'', JNull])]"]
    load_edible_items_contract [of
      "\<lparr>path_exists = (\<lambda>p. True), file_json = (\<lambda>p. Inr (JList [JStr ''modA:bread''])),
        recipe_stream = (\<lambda>ps. [])\<rparr>" "[''edibles.json'']" "JList [JStr ''modA:bread'']"]
  by (auto simp: read_json_def get_def)

section \<open>Properties of the run\<close>





section \<open>Properties of the registry synchronization\<close>

text \<open>
  Claim C1. A node in which \<^verbatim>\<open>assigned_buffs\<close> exists has the same \<^verbatim>\<open>assigned_buffs\<close> after
  \<^verbatim>\<open>update_node_structural_fields\<close>, and a node file of the registry with that field
  holds the same value after \<^verbatim>\<open>sync_registry_nodes\<close>, for every direct map, edible set,
  item and expected set. Both functions are unimplemented in the source (their body is
  \<^verbatim>\<open>pass\<close>), so they keep the field by writing nothing at all.
\<close>

theorem assigned_buffs_preserved:
  "(has_key node ''assigned_buffs'' \<longrightarrow>
      has_key (fst (update_node_structural_fields node item_id direct_map edible)) ''assigned_buffs''
      \<and> get (fst (update_node_structural_fields node item_id direct_map edible)) ''assigned_buffs''
          = get node ''assigned_buffs'')
   \<and> (files p = Some (JObj node) \<and> has_key node ''assigned_buffs'' \<longrightarrow>
      (\<exists>node'. fst (sync_registry_nodes files registry_dir expected_nodes direct_map edible) p
                  = Some (JObj node')
         \<and> has_key node' ''assigned_buffs''
         \<and> get node' ''assigned_buffs'' = get node ''assigned_buffs''))"
  by (simp add: update_node_structural_fields_def sync_registry_nodes_def)

text \<open>The node of the spec's example, with the buff \<^verbatim>\<open>regen\<close>, under a new direct map.\<close>

theorem assigned_buffs_preserved_witness:
  "get (fst (update_node_structural_fields
          [(''id'', JStr ''modA:bread''), (''assigned_buffs'', JList [JStr ''regen''])]
          ''modA:bread'' [''modA:bread'' \<mapsto> [''item:modA:wheat'']] {''modA:bread''}))
       ''assigned_buffs'' = JList [JStr ''regen'']
   \<and> (\<exists>node'. fst (sync_registry_nodes
          [[''registry'', ''nodes'', ''modA__bread.json''] \<mapsto>
             JObj [(''id'', JStr ''modA:bread''), (''assigned_buffs'', JList [JStr ''regen''])]]
          [''registry''] {''modA:bread''} [''modA:bread'' \<mapsto> [''item:modA:wheat'']] {''modA:bread''})
          [''registry'', ''nodes'', ''modA__bread.json''] = Some (JObj node')
        \<and> get node' ''assigned_buffs'' = JList [JStr ''regen''])"
proof -
  let ?node = "[(''id'', JStr ''modA:bread''), (''assigned_buffs'', JList [JStr ''regen''])]"
  have h: "has_key ?node ''assigned_buffs''"
    by (simp add: has_key_def)
  have g: "get ?node ''assigned_buffs'' = JList [JStr ''regen'']"
    by (simp add: get_def)
  show ?thesis
    using assigned_buffs_preserved [of ?node
        "''modA:bread''" "[''modA:bread'' \<mapsto> [''item:modA:wheat'']]" "{''modA:bread''}"
        "[[''registry'', ''nodes'', ''modA__bread.json''] \<mapsto> JObj ?node]"
        "[''registry'', ''nodes'', ''modA__bread.json'']" "[''registry'']" "{''modA:bread''}"]
      h
    unfolding g by fastforce
qed


end
